theory Spec2Isabelle
  imports Main "HOL-Library.Signed_Division" "HOL-Library.Monad_Syntax"
begin

section \<open>The number speller of \<^verbatim>\<open>words_and_linguistics/spell.cpp\<close>\<close>

text \<open>
  The program turns a string of decimal digits into English words and into a mixed
  form of numerals and scale names. A \<^verbatim>\<open>std::string\<close> is a \<^typ>\<open>string\<close> (a list of
  bytes, which may hold the byte 0), a C++ \<^verbatim>\<open>int\<close> is an \<^typ>\<open>int\<close>: every integer the
  program computes is a string length, a counter below it, or a sum of three byte
  differences, so no 32-bit overflow arises for strings shorter than \<open>2^31\<close> bytes.
  A thrown \<^verbatim>\<open>std::runtime_error\<close> is the left summand of a sum type. Reading a table
  outside its bounds is undefined behaviour in C++: the model returns \<open>None\<close> there, so
  that a result \<open>Some\<close> says that every table access was inside its table.
\<close>

subsection \<open>Namespace \<^verbatim>\<open>spell_utilities\<close>: the tables\<close>

definition word_for_ones :: "string list" where
  "word_for_ones =
     ['''', ''one'', ''two'', ''three'', ''four'',
      ''five'', ''six'', ''seven'', ''eight'',
      ''nine'']"

definition word_for_teens :: "string list" where
  "word_for_teens =
     ['''', ''eleven'', ''twelve'', ''thirteen'', ''fourteen'',
      ''fifteen'', ''sixteen'', ''seventeen'', ''eighteen'',
      ''nineteen'']"

definition word_for_tens :: "string list" where
  "word_for_tens =
     ['''', ''ten'', ''twenty'', ''thirty'', ''forty'',
      ''fifty'', ''sixty'', ''seventy'', ''eighty'',
      ''ninety'']"

definition name_for_big_numbers :: "string list" where
  "name_for_big_numbers =
     ['''', ''thousand'', ''million'', ''billion'',
      ''trillion'', ''quadrillion'', ''quintillion'',
      ''sextillion'', ''septillion'', ''octillion'',
      ''nonillion'', ''decillion'', ''undecillion'',
      ''duodecillion'', ''tredecillion'', ''quattuordecillion'',
      ''quindecillion'', ''sexdecillion'', ''septendecillion'',
      ''octodecillion'', ''novemdecillion'', ''vigintillion'',
      ''unvigintillion'', ''duovigintillion'', ''trevigintillion'',
      ''quattuorvigintillion'', ''quinvigintillion'', ''sexvigintillion'',
      ''septenvigintillion'', ''octovigintillion'', ''novemvigintillion'',
      ''trigintillion'', ''untrigintillion'', ''duotrigintillion'']"

text \<open>\<open>table[i]\<close> on a built-in array: defined only for \<open>0 \<le> i < size\<close>.\<close>

definition table_at :: "string list \<Rightarrow> int \<Rightarrow> string option" where
  "table_at table i =
     (if 0 \<le> i \<and> i < int (length table) then Some (table ! nat i) else None)"

definition MAX_DIGITS_ALLOWED :: int where
  "MAX_DIGITS_ALLOWED = 99 + 2 + 1"

subsection \<open>Characters and decimal rendering\<close>

text \<open>
  The value of a \<^verbatim>\<open>char\<close> once promoted to \<^verbatim>\<open>int\<close>. Plain \<^verbatim>\<open>char\<close> is taken as signed
  (bytes from 128 on are negative), as on x86; the digits \<open>'0'..'9'\<close> are 48..57 either
  way, and a byte outside them fails the digit test of \<open>is_valid_number\<close> either way.
\<close>

definition char_value :: "char \<Rightarrow> int" where
  "char_value c = (if (of_char c :: int) < 128 then of_char c else of_char c - 256)"

definition digit_char :: "nat \<Rightarrow> char" where
  "digit_char d = ''0123456789'' ! d"

fun decimal_nat :: "nat \<Rightarrow> string" where
  "decimal_nat n =
     (if n < 10 then [digit_char n] else decimal_nat (n div 10) @ [digit_char (n mod 10)])"

declare decimal_nat.simps [simp del]

text \<open>What \<^verbatim>\<open>printf("%d", k)\<close> writes.\<close>

definition decimal_int :: "int \<Rightarrow> string" where
  "decimal_int k = (if k < 0 then CHR ''-'' # decimal_nat (nat (- k)) else decimal_nat (nat k))"

subsection \<open>Namespace \<^verbatim>\<open>spell_utilities\<close>: the functions\<close>

definition string_to_integer :: "string \<Rightarrow> int" where
  "string_to_integer input =
     (if length input = 3 then
        ((char_value (input ! 0) - char_value CHR ''0'') * 100)
        + ((char_value (input ! 1) - char_value CHR ''0'') * 10)
        + ((char_value (input ! 2) - char_value CHR ''0'') * 1)
      else if length input = 2 then
        (char_value (input ! 0) - char_value CHR ''0'') * 10
        + (char_value (input ! 1) - char_value CHR ''0'') * 1
      else if length input = 1 then
        (char_value (input ! 0) - char_value CHR ''0'') * 1
      else 0)"

text \<open>
  \<^verbatim>\<open>snprintf(buf, sizeof(buf), "%d", input)\<close> with a buffer of 4 bytes keeps the first
  3 characters of the decimal rendering.
\<close>

definition integer_to_string :: "int \<Rightarrow> string" where
  "integer_to_string input = take (4 - 1) (decimal_int input)"

text \<open>
  \<^verbatim>\<open>s[i]\<close> on a \<^verbatim>\<open>std::string\<close>, for \<open>i \<le> size\<close>: at \<open>i = size\<close> it is the byte 0.
\<close>

definition char_at :: "string \<Rightarrow> nat \<Rightarrow> char" where
  "char_at s i = (if i < length s then s ! i else CHR 0x00)"

text \<open>
  The loop \<^verbatim>\<open>for (i = 0; input[i]; i++)\<close> of \<open>is_valid_number\<close>: it stops at the first
  byte 0, at the end of the string at the latest. \<open>None\<close> is the \<^verbatim>\<open>return false\<close> inside
  the loop, \<open>Some i\<close> the value of \<open>i\<close> when the loop is left.
\<close>

function is_valid_number_loop :: "string \<Rightarrow> nat \<Rightarrow> nat option" where
  "is_valid_number_loop input i =
     (if char_at input i \<noteq> CHR 0x00 then
        (let digit = char_value (char_at input i) - char_value CHR ''0''
         in if digit < 0 \<or> digit > 9 then None
            else is_valid_number_loop input (i + 1))
      else Some i)"
  by pat_completeness auto
termination
  by (relation "measure (\<lambda>(input, i). length input - i)")
    (auto simp: char_at_def split: if_splits)

declare is_valid_number_loop.simps [simp del]

definition is_valid_number :: "string \<Rightarrow> bool" where
  "is_valid_number input =
     (if input = [] then False
      else case is_valid_number_loop input 0 of
             None \<Rightarrow> False
           | Some i \<Rightarrow> if int i > MAX_DIGITS_ALLOWED then False else True)"

text \<open>\<^verbatim>\<open>s.substr(pos, n)\<close> for \<open>pos \<le> size\<close>.\<close>

definition substr :: "string \<Rightarrow> nat \<Rightarrow> nat \<Rightarrow> string" where
  "substr s pos n = take n (drop pos s)"

function split_loop :: "string \<Rightarrow> nat \<Rightarrow> string list \<Rightarrow> int \<Rightarrow> string list \<times> int" where
  "split_loop adjusted_input i bucket bkt_no =
     (if i < length adjusted_input then
        split_loop adjusted_input (i + 3) (bucket @ [substr adjusted_input i 3]) (bkt_no + 1)
      else (bucket, bkt_no))"
  by pat_completeness auto
termination
  by (relation "measure (\<lambda>(adjusted_input, i, bucket, bkt_no). length adjusted_input - i)") auto

declare split_loop.simps [simp del]

text \<open>The string the grouper slices: the input behind its padding.\<close>

definition adjusted_input :: "string \<Rightarrow> string" where
  "adjusted_input input =
     (let pad = 3 - int (length input mod 3)
      in (if pad = 1 then ''0'' else if pad = 2 then ''00'' else '''') @ input)"

text \<open>
  The vector \<open>bucket\<close> is passed by reference and pushed onto; the model returns it
  beside the count.
\<close>

definition split_number_to_buckets_of_3_digits :: "string \<Rightarrow> string list \<Rightarrow> int \<times> string list" where
  "split_number_to_buckets_of_3_digits input bucket =
     (case split_loop (adjusted_input input) 0 bucket 0 of
        (bucket', bkt_no) \<Rightarrow> (bkt_no, bucket'))"

definition number_constraints :: string where
  "number_constraints =
     take (128 - 1)
       (''Number must be a non-zero positive ''
        @ ''integer, should not exceed '' @ decimal_int MAX_DIGITS_ALLOWED @ '' digits ''
        @ ''and may contain commas as digits ''
        @ ''separator'')"

subsection \<open>Class \<^verbatim>\<open>Spell\<close>\<close>

text \<open>
  The three private members \<^verbatim>\<open>_number_in_digits\<close>, \<^verbatim>\<open>_number_in_words\<close> and
  \<^verbatim>\<open>_number_in_words_and_digits\<close> (a leading underscore is no Isabelle name, so the
  fields are prefixed \<open>m\<close>).
\<close>

record Spell =
  m_number_in_digits :: string
  m_number_in_words :: string
  m_number_in_words_and_digits :: string

text \<open>The only exception thrown: a \<^verbatim>\<open>std::runtime_error\<close> with its message.\<close>

datatype error = InvalidNumber string

text \<open>The pieces of \<^verbatim>\<open>std::string\<close> and \<^verbatim>\<open><algorithm>\<close> that the setter uses.\<close>

text \<open>
  \<^verbatim>\<open>std::remove_copy(first, last, d_first, value)\<close>: copies the elements different from
  \<open>value\<close> over the beginning of the destination and returns the position behind the
  last element written.
\<close>

definition remove_copy :: "string \<Rightarrow> string \<Rightarrow> char \<Rightarrow> string \<times> nat" where
  "remove_copy src dest v =
     (let kept = filter (\<lambda>c. c \<noteq> v) src
      in (kept @ drop (length kept) dest, length kept))"

text \<open>\<^verbatim>\<open>s.erase(first, last)\<close> on positions.\<close>

definition erase_range :: "string \<Rightarrow> nat \<Rightarrow> nat \<Rightarrow> string" where
  "erase_range s first_pos last_pos = take first_pos s @ drop last_pos s"

text \<open>\<^verbatim>\<open>s.find_first_not_of(c)\<close>; \<open>None\<close> is \<^verbatim>\<open>npos\<close>.\<close>

fun find_first_not_of :: "string \<Rightarrow> char \<Rightarrow> nat option" where
  "find_first_not_of [] c = None"
| "find_first_not_of (x # xs) c =
     (if x \<noteq> c then Some 0 else map_option Suc (find_first_not_of xs c))"

text \<open>\<^verbatim>\<open>s.erase(pos, count)\<close> for \<open>pos \<le> size\<close>; the count \<^verbatim>\<open>npos\<close> erases to the end.\<close>

definition erase :: "string \<Rightarrow> nat \<Rightarrow> nat option \<Rightarrow> string" where
  "erase s pos count =
     (case count of
        None \<Rightarrow> take pos s
      | Some n \<Rightarrow> take pos s @ drop (pos + n) s)"

text \<open>
  The local \<open>sanitized_number\<close> of \<open>set_number_in_digits\<close> when validation is reached:
  the commas removed, then the leading zeros.
\<close>

definition sanitized_number :: "string \<Rightarrow> string" where
  "sanitized_number given_number_in_digits =
     (let s0 = replicate (length given_number_in_digits) (CHR 0x00);
          (s1, new_end) = remove_copy given_number_in_digits s0 (CHR '','');
          s2 = erase_range s1 new_end (length s1)
      in erase s2 0 (find_first_not_of s2 (CHR ''0'')))"

text \<open>
  The setter returns what it threw, or \<open>()\<close>, beside the object as the call leaves it.
\<close>

definition set_number_in_digits :: "string \<Rightarrow> Spell \<Rightarrow> (error + unit) \<times> Spell" where
  "set_number_in_digits given_number_in_digits this =
     (let sanitized = sanitized_number given_number_in_digits
      in if \<not> is_valid_number sanitized then (Inl (InvalidNumber number_constraints), this)
         else (Inr (), this\<lparr>m_number_in_digits := sanitized\<rparr>))"

text \<open>
  The constructor: the two result strings are initialised empty, the digit string is
  default-constructed, and an exception of the setter leaves no object.
\<close>

definition Spell :: "string \<Rightarrow> error + Spell" where
  "Spell given_number_in_digits =
     (case set_number_in_digits given_number_in_digits
             \<lparr>m_number_in_digits = '''', m_number_in_words = '''',
              m_number_in_words_and_digits = ''''\<rparr> of
        (Inl e, _) \<Rightarrow> Inl e
      | (Inr _, this) \<Rightarrow> Inr this)"

definition number_in_digits :: "Spell \<Rightarrow> string" where
  "number_in_digits this = m_number_in_digits this"

definition number_in_words :: "Spell \<Rightarrow> string" where
  "number_in_words this = m_number_in_words this"

definition number_in_words_and_digits :: "Spell \<Rightarrow> string" where
  "number_in_words_and_digits this = m_number_in_words_and_digits this"

definition number_length :: "Spell \<Rightarrow> int" where
  "number_length this = int (length (m_number_in_digits this))"

subsection \<open>\<^verbatim>\<open>Spell::do_spell\<close>\<close>

text \<open>
  The body of the loop over the buckets, block by block as the source comments them.
  The local \<open>number_from_bucket\<close> is handed from block to block; the loop keeps the
  object, the flag \<open>show_big_number_name\<close> and the counter \<open>big_number\<close>.
\<close>

text \<open>Lines 262 to 265: a nonzero bucket sets the flag and writes its numeral.\<close>

definition spell_numeral :: "int \<Rightarrow> Spell \<times> bool \<Rightarrow> Spell \<times> bool" where
  "spell_numeral number_from_bucket st =
     (case st of (this, show_big_number_name) \<Rightarrow>
        if number_from_bucket \<noteq> 0 then
          (this\<lparr>m_number_in_words_and_digits :=
                   m_number_in_words_and_digits this
                   @ integer_to_string number_from_bucket @ '' ''\<rparr>,
           True)
        else (this, show_big_number_name))"

text \<open>Lines 268 to 271, "focus on the 100s"; \<open>b\<close> is \<open>bucket[i]\<close>.\<close>

definition spell_hundreds :: "string \<Rightarrow> int \<Rightarrow> Spell \<Rightarrow> Spell option" where
  "spell_hundreds b number_from_bucket this =
     (if number_from_bucket > 99 then
        do {
          w \<leftarrow> table_at word_for_ones (char_value (char_at b 0) - char_value CHR ''0'');
          Some (this\<lparr>m_number_in_words :=
                       m_number_in_words this @ w @ '' '' @ ''hundred'' @ '' ''\<rparr>)
        }
      else Some this)"

text \<open>
  Lines 273 to 282, "focus on the tens": returns \<open>number_from_bucket\<close> as the block
  leaves it. The operators \<open>%\<close> and \<open>/\<close> of C++ truncate towards zero.
\<close>

definition spell_tens :: "int \<Rightarrow> Spell \<Rightarrow> (int \<times> Spell) option" where
  "spell_tens number_from_bucket0 this =
     (let number_from_bucket = number_from_bucket0 smod 100
      in if number_from_bucket > 10 \<and> number_from_bucket < 20 then
           do {
             w \<leftarrow> table_at word_for_teens (number_from_bucket - 10);
             Some (0, this\<lparr>m_number_in_words := m_number_in_words this @ w @ '' ''\<rparr>)
           }
         else if number_from_bucket \<ge> 10 then
           do {
             w \<leftarrow> table_at word_for_tens (number_from_bucket sdiv 10);
             Some (number_from_bucket,
                   this\<lparr>m_number_in_words := m_number_in_words this @ w @ '' ''\<rparr>)
           }
         else Some (number_from_bucket, this))"

text \<open>Lines 284 to 288, "focus on the ones".\<close>

definition spell_ones :: "int \<Rightarrow> Spell \<Rightarrow> Spell option" where
  "spell_ones number_from_bucket0 this =
     (let number_from_bucket = number_from_bucket0 smod 10
      in if number_from_bucket > 0 \<and> number_from_bucket < 10 then
           do {
             w \<leftarrow> table_at word_for_ones number_from_bucket;
             Some (this\<lparr>m_number_in_words := m_number_in_words this @ w @ '' ''\<rparr>)
           }
         else Some this)"

text \<open>Lines 290 to 294: the scale name, when the flag is set.\<close>

definition spell_big_number_name :: "int \<Rightarrow> Spell \<times> bool \<Rightarrow> (Spell \<times> bool) option" where
  "spell_big_number_name big_number st =
     (case st of (this, show_big_number_name) \<Rightarrow>
        if show_big_number_name then
          do {
            w \<leftarrow> table_at name_for_big_numbers big_number;
            Some (this\<lparr>m_number_in_words := m_number_in_words this @ w @ '' '',
                        m_number_in_words_and_digits :=
                          m_number_in_words_and_digits this @ w @ '' ''\<rparr>,
                  False)
          }
        else Some (this, show_big_number_name))"

text \<open>
  The words of one bucket, lines 268 to 288: hundreds, tens or teens, ones.
\<close>

definition spell_words :: "string \<Rightarrow> Spell \<Rightarrow> Spell option" where
  "spell_words b this =
     do {
       this1 \<leftarrow> spell_hundreds b (string_to_integer b) this;
       (number_from_bucket, this2) \<leftarrow> spell_tens (string_to_integer b) this1;
       spell_ones number_from_bucket this2
     }"

text \<open>One iteration of the loop, lines 261 to 296.\<close>

definition spell_bucket :: "string \<Rightarrow> Spell \<times> bool \<times> int \<Rightarrow> (Spell \<times> bool \<times> int) option" where
  "spell_bucket b st =
     (case st of (this, show_big_number_name, big_number) \<Rightarrow>
        (case spell_numeral (string_to_integer b) (this, show_big_number_name) of
           (this1, show1) \<Rightarrow>
             do {
               this2 \<leftarrow> spell_words b this1;
               (this3, show3) \<leftarrow> spell_big_number_name big_number (this2, show1);
               Some (this3, show3, big_number - 1)
             }))"

text \<open>The loop \<^verbatim>\<open>for (int i = 0; i < allocated_buckets; i++)\<close> over \<open>bucket[i]\<close>.\<close>

fun spell_loop :: "string list \<Rightarrow> Spell \<times> bool \<times> int \<Rightarrow> (Spell \<times> bool \<times> int) option" where
  "spell_loop [] st = Some st"
| "spell_loop (b # bucket) st =
     (case spell_bucket b st of
        None \<Rightarrow> None
      | Some st' \<Rightarrow> spell_loop bucket st')"

text \<open>
  \<open>do_spell\<close>: the loop runs over the first \<open>allocated_buckets\<close> elements of the vector
  (reading behind its end is undefined).
\<close>

definition do_spell :: "Spell \<Rightarrow> Spell option" where
  "do_spell this0 =
     (let this = this0\<lparr>m_number_in_words := '''', m_number_in_words_and_digits := ''''\<rparr>;
          (allocated_buckets, bucket) =
             split_number_to_buckets_of_3_digits (m_number_in_digits this) [];
          show_big_number_name = False;
          big_number = allocated_buckets - 1
      in if allocated_buckets \<le> int (length bucket) then
           map_option fst
             (spell_loop (take (nat allocated_buckets) bucket)
                (this, show_big_number_name, big_number))
         else None)"

text \<open>
  The \<^verbatim>\<open>try\<close> block of \<open>main\<close> without its printing: construct the object, call
  \<open>do_spell\<close>, read both results.
\<close>

definition main_spell :: "string \<Rightarrow> error + (string \<times> string) option" where
  "main_spell number =
     (case Spell number of
        Inl e \<Rightarrow> Inl e
      | Inr this \<Rightarrow>
          Inr (map_option (\<lambda>this'. (number_in_words this', number_in_words_and_digits this'))
                 (do_spell this)))"

subsection \<open>Vocabulary of the statements\<close>

text \<open>A string of decimal digits, as the statements below speak of it.\<close>

definition digits_only :: "string \<Rightarrow> bool" where
  "digits_only s = (\<forall>c \<in> set s. c \<in> set ''0123456789'')"

section \<open>Normalisation and validation\<close>

lemma erase_find_first_not_of:
  "erase s 0 (find_first_not_of s c) = dropWhile (\<lambda>x. x = c) s"
  by (induction s) (auto simp: erase_def split: option.splits)

lemma sanitized_number_eq:
  "sanitized_number s = dropWhile (\<lambda>c. c = CHR ''0'') (filter (\<lambda>c. c \<noteq> CHR '','') s)"
  unfolding sanitized_number_def remove_copy_def erase_range_def Let_def
  by (simp add: erase_find_first_not_of)

lemma char_value_zero: "char_value CHR ''0'' = 48"
  by (simp add: char_value_def)

lemma digit_char_value:
  assumes "c \<in> set ''0123456789''"
  shows "0 \<le> char_value c - 48 \<and> char_value c - 48 \<le> 9 \<and> c \<noteq> CHR 0x00"
  using assms by (auto simp: char_value_def)

lemma digit_not_comma: "c \<in> set ''0123456789'' \<Longrightarrow> c \<noteq> CHR '',''"
  by auto

lemma is_valid_number_Nil: "\<not> is_valid_number []"
  by (simp add: is_valid_number_def)

lemma sanitized_number_normalized:
  assumes "digits_only s" "s \<noteq> []" "hd s \<noteq> CHR ''0''"
  shows "sanitized_number s = s"
proof -
  have "\<forall>c \<in> set s. c \<noteq> CHR '',''"
    using assms(1) digit_not_comma unfolding digits_only_def by blast
  then have "filter (\<lambda>c. c \<noteq> CHR '','') s = s"
    by (simp only: filter_id_conv)
  moreover have "dropWhile (\<lambda>c. c = CHR ''0'') s = s"
    using assms(2,3) by (cases s) simp_all
  ultimately show ?thesis by (simp only: sanitized_number_eq)
qed

lemma is_valid_number_loop_digits:
  assumes "\<forall>j. i \<le> j \<and> j < length s \<longrightarrow> s ! j \<in> set ''0123456789''"
  shows "is_valid_number_loop s i = Some (max i (length s))"
  using assms
proof (induction s i rule: is_valid_number_loop.induct)
  case (1 input i)
  show ?case
  proof (cases "i < length input")
    case True
    then have d: "input ! i \<in> set ''0123456789''" using "1.prems" by simp
    note dv = digit_char_value [OF d]
    have at: "char_at input i = input ! i" using True by (simp add: char_at_def)
    have nz: "char_at input i \<noteq> CHR 0x00" using dv by (simp add: at)
    have dg: "\<not> (char_value (char_at input i) - char_value CHR ''0'' < 0
               \<or> char_value (char_at input i) - char_value CHR ''0'' > 9)"
      using dv by (simp add: char_value_zero at)
    have "\<forall>j. i + 1 \<le> j \<and> j < length input \<longrightarrow> input ! j \<in> set ''0123456789''"
      using "1.prems" by simp
    from "1.IH" [OF nz refl dg this]
    have rec: "is_valid_number_loop input (i + 1) = Some (max (i + 1) (length input))" .
    have "is_valid_number_loop input i = is_valid_number_loop input (i + 1)"
      using nz dg by (subst is_valid_number_loop.simps) (simp add: Let_def)
    with rec True show ?thesis by (simp add: max_def)
  next
    case False
    then show ?thesis
      by (subst is_valid_number_loop.simps) (simp add: max_def char_at_def)
  qed
qed

lemma is_valid_number_digits:
  assumes "digits_only s"
  shows "is_valid_number s \<longleftrightarrow> s \<noteq> [] \<and> length s \<le> 102"
proof -
  have "is_valid_number_loop s 0 = Some (length s)"
    using is_valid_number_loop_digits [of 0 s] assms
    unfolding digits_only_def by simp
  then show ?thesis
    by (simp add: is_valid_number_def MAX_DIGITS_ALLOWED_def)
qed

lemma set_number_in_digits_valid:
  "is_valid_number (sanitized_number s) \<Longrightarrow>
   set_number_in_digits s this = (Inr (), this\<lparr>m_number_in_digits := sanitized_number s\<rparr>)"
  by (simp add: set_number_in_digits_def)

lemma set_number_in_digits_invalid:
  "\<not> is_valid_number (sanitized_number s) \<Longrightarrow>
   set_number_in_digits s this = (Inl (InvalidNumber number_constraints), this)"
  by (simp add: set_number_in_digits_def)

text \<open>
  The bound of the validation is \<open>MAX_DIGITS_ALLOWED = 99 + 2 + 1 = 102\<close>, which the
  source explains as the 99 zeros of a duotrigintillion, the two further zeros of a
  hundred and one leading digit: a number of 102 digits has 34 buckets, and the table
  of scale names has the 34 entries they need. A string of a one and 101 zeros, 102
  digits in all, is accepted.
\<close>

theorem C1_counterexample:
  "length ''100000000000000000000000000000000000000000000000000000000000000000000000000000000000000000000000000000'' = 102
   \<and> set_number_in_digits ''100000000000000000000000000000000000000000000000000000000000000000000000000000000000000000000000000000''
        \<lparr>m_number_in_digits = ''7'', m_number_in_words = ''seven  '',
         m_number_in_words_and_digits = ''7  ''\<rparr>
     = (Inr (),
        \<lparr>m_number_in_digits = ''100000000000000000000000000000000000000000000000000000000000000000000000000000000000000000000000000000'',
         m_number_in_words = ''seven  '', m_number_in_words_and_digits = ''7  ''\<rparr>)"
  by code_simp

text \<open>
  Claim C1, as the code has it: a normalised digit string (digits only, first digit
  not zero) of at most 102 digits, so also one of exactly 101 digits, is accepted and
  stored; one of 103 or more digits raises the error and leaves the object as it was.
\<close>

theorem C1_max_digits:
  assumes "digits_only s" and "s \<noteq> []" and "hd s \<noteq> CHR ''0''"
  shows "(length s \<le> 102 \<longrightarrow>
            set_number_in_digits s this = (Inr (), this\<lparr>m_number_in_digits := s\<rparr>))
       \<and> (103 \<le> length s \<longrightarrow>
            set_number_in_digits s this = (Inl (InvalidNumber number_constraints), this))"
proof -
  have san: "sanitized_number s = s"
    using assms by (rule sanitized_number_normalized)
  have val: "is_valid_number s \<longleftrightarrow> length s \<le> 102"
    using is_valid_number_digits [OF assms(1)] assms(2) by simp
  show ?thesis
    using set_number_in_digits_valid [of s this] set_number_in_digits_invalid [of s this]
    by (simp add: san val)
qed

theorem C1_max_digits_witness:
  "length ''10000000000000000000000000000000000000000000000000000000000000000000000000000000000000000000000000000'' = 101
   \<and> set_number_in_digits ''10000000000000000000000000000000000000000000000000000000000000000000000000000000000000000000000000000''
        \<lparr>m_number_in_digits = ''7'', m_number_in_words = ''seven  '',
         m_number_in_words_and_digits = ''7  ''\<rparr>
     = (Inr (),
        \<lparr>m_number_in_digits = ''10000000000000000000000000000000000000000000000000000000000000000000000000000000000000000000000000000'',
         m_number_in_words = ''seven  '', m_number_in_words_and_digits = ''7  ''\<rparr>)
   \<and> length ''1000000000000000000000000000000000000000000000000000000000000000000000000000000000000000000000000000000'' = 103
   \<and> set_number_in_digits ''1000000000000000000000000000000000000000000000000000000000000000000000000000000000000000000000000000000''
        \<lparr>m_number_in_digits = ''7'', m_number_in_words = ''seven  '',
         m_number_in_words_and_digits = ''7  ''\<rparr>
     = (Inl (InvalidNumber number_constraints),
        \<lparr>m_number_in_digits = ''7'', m_number_in_words = ''seven  '',
         m_number_in_words_and_digits = ''7  ''\<rparr>)"
proof -
  have a: "digits_only ''10000000000000000000000000000000000000000000000000000000000000000000000000000000000000000000000000000''"
    by (simp add: digits_only_def)
  have b: "digits_only ''1000000000000000000000000000000000000000000000000000000000000000000000000000000000000000000000000000000''"
    by (simp add: digits_only_def)
  show ?thesis
    using C1_max_digits [OF a, of
            "\<lparr>m_number_in_digits = ''7'', m_number_in_words = ''seven  '',
              m_number_in_words_and_digits = ''7  ''\<rparr>"]
          C1_max_digits [OF b, of
            "\<lparr>m_number_in_digits = ''7'', m_number_in_words = ''seven  '',
              m_number_in_words_and_digits = ''7  ''\<rparr>"]
    by simp
qed

lemma dropWhile_zero_filter_comma:
  assumes "\<forall>c \<in> set s. c = CHR ''0'' \<or> c = CHR '',''"
  shows "dropWhile (\<lambda>c. c = CHR ''0'') (filter (\<lambda>c. c \<noteq> CHR '','') s) = []"
  using assms by (induction s) auto

text \<open>
  Claim C7: an input made of the characters \<open>0\<close> and \<open>,\<close> only (the empty string
  and \<open>"0"\<close> among them) normalises to the empty string; the setter raises the
  error and leaves the object alone, the constructor raises it, and the demonstration
  of \<open>main\<close> never reaches \<open>do_spell\<close>.
\<close>

theorem C7_zeros_and_commas_rejected:
  assumes "\<forall>c \<in> set s. c = CHR ''0'' \<or> c = CHR '',''"
  shows "sanitized_number s = []
       \<and> set_number_in_digits s this = (Inl (InvalidNumber number_constraints), this)
       \<and> Spell s = Inl (InvalidNumber number_constraints)
       \<and> main_spell s = Inl (InvalidNumber number_constraints)"
proof -
  have san: "sanitized_number s = []"
    using dropWhile_zero_filter_comma [OF assms] by (simp only: sanitized_number_eq)
  then have inv: "\<not> is_valid_number (sanitized_number s)"
    by (simp add: is_valid_number_Nil)
  have new: "Spell s = Inl (InvalidNumber number_constraints)"
    by (simp add: Spell_def set_number_in_digits_invalid [OF inv])
  show ?thesis
    using san set_number_in_digits_invalid [OF inv, of this] new
    by (simp add: main_spell_def)
qed

theorem C7_zeros_and_commas_rejected_witness:
  "sanitized_number ''0,000'' = []
   \<and> set_number_in_digits ''0,000''
        \<lparr>m_number_in_digits = ''7'', m_number_in_words = '''',
         m_number_in_words_and_digits = ''''\<rparr>
     = (Inl (InvalidNumber number_constraints),
        \<lparr>m_number_in_digits = ''7'', m_number_in_words = '''',
         m_number_in_words_and_digits = ''''\<rparr>)
   \<and> Spell ''0'' = Inl (InvalidNumber number_constraints)
   \<and> main_spell '''' = Inl (InvalidNumber number_constraints)"
  using C7_zeros_and_commas_rejected [of "''0,000''"
          "\<lparr>m_number_in_digits = ''7'', m_number_in_words = '''',
            m_number_in_words_and_digits = ''''\<rparr>"]
        C7_zeros_and_commas_rejected [of "''0''"]
        C7_zeros_and_commas_rejected [of "''''"]
  by simp

text \<open>
  Claim C8: the normalised string of a raw input is that of the input without its
  commas; it is the raw input filtered, in its order, and cut at the front. So the
  setter does the same on both, and \<open>"1,234,567"\<close> normalises as \<open>"1234567"\<close>.
\<close>

theorem C8_commas_ignored:
  "sanitized_number raw = sanitized_number (filter (\<lambda>c. c \<noteq> CHR '','') raw)
   \<and> sanitized_number raw
       = dropWhile (\<lambda>c. c = CHR ''0'') (filter (\<lambda>c. c \<noteq> CHR '','') raw)
   \<and> set_number_in_digits raw this
       = set_number_in_digits (filter (\<lambda>c. c \<noteq> CHR '','') raw) this
   \<and> sanitized_number ''1,234,567'' = sanitized_number ''1234567''"
proof -
  have a: "sanitized_number raw = sanitized_number (filter (\<lambda>c. c \<noteq> CHR '','') raw)"
    by (simp add: sanitized_number_eq)
  have b: "sanitized_number ''1,234,567'' = sanitized_number ''1234567''"
    by (simp add: sanitized_number_eq)
  show ?thesis
    using a b by (simp add: set_number_in_digits_def sanitized_number_eq)
qed

text \<open>
  Claim C9: on an input that passes validation the setter replaces the digit string
  and nothing else: both result strings are those of the object before the call. After
  the constructor they are the empty strings.
\<close>

theorem C9_setter_keeps_results:
  assumes "is_valid_number (sanitized_number s)"
  shows "set_number_in_digits s this
           = (Inr (), this\<lparr>m_number_in_digits := sanitized_number s\<rparr>)
       \<and> number_in_words (snd (set_number_in_digits s this)) = number_in_words this
       \<and> number_in_words_and_digits (snd (set_number_in_digits s this))
           = number_in_words_and_digits this
       \<and> Spell s
           = Inr \<lparr>m_number_in_digits = sanitized_number s, m_number_in_words = '''',
                  m_number_in_words_and_digits = ''''\<rparr>"
  using set_number_in_digits_valid [OF assms]
  by (simp add: Spell_def number_in_words_def number_in_words_and_digits_def)

theorem C9_setter_keeps_results_witness:
  "is_valid_number (sanitized_number ''1,001'')
   \<and> set_number_in_digits ''1,001''
        \<lparr>m_number_in_digits = ''14'', m_number_in_words = ''fourteen  '',
         m_number_in_words_and_digits = ''14  ''\<rparr>
     = (Inr (), \<lparr>m_number_in_digits = ''1001'', m_number_in_words = ''fourteen  '',
                 m_number_in_words_and_digits = ''14  ''\<rparr>)"
proof -
  have v: "is_valid_number (sanitized_number ''1,001'')" by code_simp
  have s: "sanitized_number ''1,001'' = ''1001''" by (simp add: sanitized_number_eq)
  show ?thesis
    using v C9_setter_keeps_results [OF v,
      of "\<lparr>m_number_in_digits = ''14'', m_number_in_words = ''fourteen  '',
           m_number_in_words_and_digits = ''14  ''\<rparr>"]
    by (simp add: s)
qed

text \<open>
  Claim C10: on an input whose normalisation fails validation the setter raises the
  error and the object is the one before the call, its digit string included.
\<close>

theorem C10_failed_setter_keeps_object:
  assumes "\<not> is_valid_number (sanitized_number s)"
  shows "set_number_in_digits s this = (Inl (InvalidNumber number_constraints), this)
       \<and> number_in_digits (snd (set_number_in_digits s this)) = number_in_digits this"
  using set_number_in_digits_invalid [OF assms] by simp

theorem C10_failed_setter_keeps_object_witness:
  "\<not> is_valid_number (sanitized_number ''12a'')
   \<and> set_number_in_digits ''12a''
        \<lparr>m_number_in_digits = ''14'', m_number_in_words = ''fourteen  '',
         m_number_in_words_and_digits = ''14  ''\<rparr>
     = (Inl (InvalidNumber number_constraints),
        \<lparr>m_number_in_digits = ''14'', m_number_in_words = ''fourteen  '',
         m_number_in_words_and_digits = ''14  ''\<rparr>)"
proof -
  have v: "\<not> is_valid_number (sanitized_number ''12a'')" by code_simp
  show ?thesis
    using v C10_failed_setter_keeps_object [OF v,
      of "\<lparr>m_number_in_digits = ''14'', m_number_in_words = ''fourteen  '',
           m_number_in_words_and_digits = ''14  ''\<rparr>"]
    by simp
qed

section \<open>The grouper\<close>

lemma dvd3_step:
  fixes m i :: nat
  shows "3 dvd (m - i) \<Longrightarrow> i < m \<Longrightarrow> i + 3 \<le> m \<and> 3 dvd (m - (i + 3))"
  by presburger

lemma mod_3_cases: "(n::nat) mod 3 = 0 \<or> n mod 3 = 1 \<or> n mod 3 = 2"
  by presburger

lemma adjusted_input_mod_0:
  "length input mod 3 = 0 \<Longrightarrow> adjusted_input input = input"
  by (simp add: adjusted_input_def)

lemma adjusted_input_mod_1:
  "length input mod 3 = 1 \<Longrightarrow> adjusted_input input = ''00'' @ input"
  by (simp add: adjusted_input_def)

lemma adjusted_input_mod_2:
  "length input mod 3 = 2 \<Longrightarrow> adjusted_input input = ''0'' @ input"
  by (simp add: adjusted_input_def)

lemma replicate_two: "replicate 2 c = [c, c]"
  by (simp add: numeral_2_eq_2)

lemma pad_len: "(3 - n mod 3) mod 3 + n = 3 * ((n + 2) div 3)" for n :: nat
proof -
  define q where "q = n div 3"
  define r where "r = n mod 3"
  have n: "n = 3 * q + r" by (simp add: q_def r_def)
  have r: "r = 0 \<or> r = 1 \<or> r = 2" unfolding r_def by (rule mod_3_cases)
  have m: "n mod 3 = r" by (simp add: r_def)
  from r show ?thesis
  proof (elim disjE)
    assume r0: "r = 0"
    have "(3 * q + 0 + 2) div 3 = q" by simp
    then show ?thesis unfolding m unfolding n r0 by simp
  next
    assume r1: "r = 1"
    have "(3 * q + 1 + 2) div 3 = q + 1" by simp
    then show ?thesis unfolding m unfolding n r1 by simp
  next
    assume r2: "r = 2"
    have "(3 * q + 2 + 2) div 3 = q + 1" by simp
    then show ?thesis unfolding m unfolding n r2 by simp
  qed
qed

lemma adjusted_input_eq:
  "adjusted_input input = replicate ((3 - length input mod 3) mod 3) (CHR ''0'') @ input"
  using mod_3_cases [of "length input"]
proof (elim disjE)
  assume h: "length input mod 3 = 0"
  show ?thesis unfolding adjusted_input_mod_0 [OF h] h by simp
next
  assume h: "length input mod 3 = 1"
  show ?thesis unfolding adjusted_input_mod_1 [OF h] h by (simp add: replicate_two)
next
  assume h: "length input mod 3 = 2"
  show ?thesis unfolding adjusted_input_mod_2 [OF h] h by simp
qed

lemma length_adjusted_input:
  "length (adjusted_input input) = 3 * ((length input + 2) div 3)"
proof -
  have "length (adjusted_input input) = (3 - length input mod 3) mod 3 + length input"
    by (simp only: adjusted_input_eq length_append length_replicate)
  then show ?thesis by (simp only: pad_len)
qed

lemma substr_drop: "substr a i 3 @ drop (i + 3) a = drop i a"
proof -
  have "drop (i + 3) a = drop 3 (drop i a)" by (simp add: add.commute)
  then have "substr a i 3 @ drop (i + 3) a = take 3 (drop i a) @ drop 3 (drop i a)"
    by (simp only: substr_def)
  then show ?thesis by (simp only: append_take_drop_id)
qed

lemma split_loop_groups:
  assumes "3 dvd (length a - i)"
  shows "\<exists>groups. split_loop a i bucket n = (bucket @ groups, n + int (length groups))
           \<and> concat groups = drop i a
           \<and> (\<forall>g \<in> set groups. length g = 3)
           \<and> 3 * length groups = length a - i"
  using assms
proof (induction a i bucket n rule: split_loop.induct)
  case (1 a i bucket n)
  show ?case
  proof (cases "i < length a")
    case False
    then have "split_loop a i bucket n = (bucket, n)"
      by (subst split_loop.simps) simp
    with False show ?thesis by simp
  next
    case True
    from dvd3_step [OF "1.prems" True]
    have ge: "i + 3 \<le> length a" and dv: "3 dvd (length a - (i + 3))" by simp_all
    from "1.IH" [OF True dv] obtain groups where
      g1: "split_loop a (i + 3) (bucket @ [substr a i 3]) (n + 1)
            = ((bucket @ [substr a i 3]) @ groups, (n + 1) + int (length groups))"
      and g2: "concat groups = drop (i + 3) a"
      and g3: "\<forall>g \<in> set groups. length g = 3"
      and g4: "3 * length groups = length a - (i + 3)"
      by blast
    have unf: "split_loop a i bucket n
                 = split_loop a (i + 3) (bucket @ [substr a i 3]) (n + 1)"
      using True by (subst split_loop.simps) simp
    have len: "length (substr a i 3) = 3"
      using ge by (simp add: substr_def)
    have c1: "split_loop a i bucket n
                = (bucket @ (substr a i 3 # groups), n + int (length (substr a i 3 # groups)))"
      by (simp add: unf g1)
    have c2: "concat (substr a i 3 # groups) = drop i a"
      by (simp add: g2 substr_drop)
    have c3: "\<forall>g \<in> set (substr a i 3 # groups). length g = 3"
      using g3 len by simp
    have c4: "3 * length (substr a i 3 # groups) = length a - i"
      using g4 ge by simp
    from c1 c2 c3 c4 show ?thesis by blast
  qed
qed

lemma split_number_groups:
  "\<exists>groups.
      split_number_to_buckets_of_3_digits input bucket = (int (length groups), bucket @ groups)
    \<and> concat groups = replicate ((3 - length input mod 3) mod 3) (CHR ''0'') @ input
    \<and> (\<forall>g \<in> set groups. length g = 3)
    \<and> length groups = (length input + 2) div 3"
proof -
  have "3 dvd (length (adjusted_input input) - 0)"
    by (simp add: length_adjusted_input)
  from split_loop_groups [OF this, of bucket 0] obtain groups where
    g1: "split_loop (adjusted_input input) 0 bucket 0 = (bucket @ groups, int (length groups))"
    and g2: "concat groups = adjusted_input input"
    and g3: "\<forall>g \<in> set groups. length g = 3"
    and g4: "3 * length groups = length (adjusted_input input)"
    by auto
  have c1: "split_number_to_buckets_of_3_digits input bucket
              = (int (length groups), bucket @ groups)"
    by (simp add: split_number_to_buckets_of_3_digits_def g1)
  have c2: "concat groups = replicate ((3 - length input mod 3) mod 3) (CHR ''0'') @ input"
    using g2 by (simp only: adjusted_input_eq)
  have c4: "length groups = (length input + 2) div 3"
    using g4 by (simp add: length_adjusted_input)
  from c1 c2 g3 c4 show ?thesis by blast
qed

text \<open>
  Claim C6: for every input string of length \<open>L\<close> (the non-empty digit strings among
  them) the grouper slices the input behind \<open>(3 - L mod 3) mod 3\<close> zero characters: it
  pushes \<open>\<lceil>L / 3\<rceil> = (L + 2) div 3\<close> groups of exactly 3 characters onto the vector, in
  the order of the string, so that their concatenation is the padded input, and it
  returns their number.
\<close>

theorem C6_grouper:
  "\<exists>groups.
      split_number_to_buckets_of_3_digits input bucket = (int (length groups), bucket @ groups)
    \<and> concat groups = replicate ((3 - length input mod 3) mod 3) (CHR ''0'') @ input
    \<and> (\<forall>g \<in> set groups. length g = 3)
    \<and> length groups = (length input + 2) div 3"
  by (rule split_number_groups)

theorem C6_grouper_witness:
  "split_number_to_buckets_of_3_digits ''1234567'' [] = (3, [''001'', ''234'', ''567''])
   \<and> (\<exists>groups.
         split_number_to_buckets_of_3_digits ''1234567'' []
           = (int (length groups), [] @ groups)
       \<and> concat groups = ''001234567''
       \<and> (\<forall>g \<in> set groups. length g = 3)
       \<and> length groups = 3)"
proof -
  have v: "split_number_to_buckets_of_3_digits ''1234567'' [] = (3, [''001'', ''234'', ''567''])"
    by code_simp
  have r: "replicate ((3 - length ''1234567'' mod 3) mod 3) (CHR ''0'') @ ''1234567''
             = ''001234567''"
    by (simp add: replicate_two)
  have l: "(length ''1234567'' + 2) div 3 = 3" by simp
  show ?thesis
    using v C6_grouper [of "''1234567''" "[]"] unfolding r l by simp
qed

section \<open>The loop of \<open>do_spell\<close>\<close>

subsection \<open>One bucket of three digits\<close>

lemma smod_nonneg: "0 \<le> k \<Longrightarrow> 0 < l \<Longrightarrow> k smod l = k mod l" for k l :: int
  by (simp add: signed_modulo_int_def sgn_if)

lemma sdiv_nonneg: "0 \<le> k \<Longrightarrow> 0 < l \<Longrightarrow> k sdiv l = k div l" for k l :: int
  by (simp add: signed_divide_int_def sgn_if)

lemma length_tables:
  "length word_for_ones = 10" "length word_for_teens = 10" "length word_for_tens = 10"
  "length name_for_big_numbers = 34"
  by (simp_all add: word_for_ones_def word_for_teens_def word_for_tens_def
      name_for_big_numbers_def)

lemma table_at_Some:
  "0 \<le> i \<Longrightarrow> i < int (length table) \<Longrightarrow> table_at table i = Some (table ! nat i)"
  by (simp add: table_at_def)

lemma digit_is_zero:
  assumes "c \<in> set ''0123456789''"
  shows "char_value c - 48 = 0 \<longleftrightarrow> c = CHR ''0''"
  using assms by (auto simp: char_value_def)

lemma bucket_cases:
  assumes "length b = 3"
  obtains c2 c1 c0 where "b = [c2, c1, c0]"
proof -
  from assms obtain c2 r where "b = c2 # r" "length r = 2"
    by (cases b) simp_all
  moreover then obtain c1 r' where "r = c1 # r'" "length r' = 1" by (cases r) simp_all
  moreover then obtain c0 where "r' = [c0]" by (cases r') simp_all
  ultimately show ?thesis using that by simp
qed

lemma string_to_integer_3:
  "string_to_integer [c2, c1, c0]
     = (char_value c2 - 48) * 100 + (char_value c1 - 48) * 10 + (char_value c0 - 48)"
  by (simp add: string_to_integer_def char_value_zero)

lemma digits_bucket:
  assumes "digits_only b" and "length b = 3"
  obtains d2 d1 d0 c2 c1 c0 where
    "b = [c2, c1, c0]" "char_value c2 - 48 = d2"
    "0 \<le> d2" "d2 \<le> 9" "0 \<le> d1" "d1 \<le> 9" "0 \<le> d0" "d0 \<le> 9"
    "string_to_integer b = d2 * 100 + d1 * 10 + d0"
proof -
  from assms(2) obtain c2 c1 c0 where b: "b = [c2, c1, c0]" by (rule bucket_cases)
  have "c2 \<in> set ''0123456789''" "c1 \<in> set ''0123456789''" "c0 \<in> set ''0123456789''"
    using assms(1) unfolding digits_only_def b by simp_all
  note d = this [THEN digit_char_value]
  show ?thesis
  proof (rule that [of c2 c1 c0 "char_value c2 - 48" "char_value c1 - 48" "char_value c0 - 48"])
    show "b = [c2, c1, c0]" by (rule b)
    show "string_to_integer b
            = (char_value c2 - 48) * 100 + (char_value c1 - 48) * 10 + (char_value c0 - 48)"
      unfolding b by (rule string_to_integer_3)
  qed (use d in simp_all)
qed

lemma string_to_integer_range:
  assumes "digits_only b" and "length b = 3"
  shows "0 \<le> string_to_integer b \<and> string_to_integer b \<le> 999"
proof -
  from assms obtain d2 d1 d0 :: int where
    "0 \<le> d2" "d2 \<le> 9" "0 \<le> d1" "d1 \<le> 9" "0 \<le> d0" "d0 \<le> 9"
    "string_to_integer b = d2 * 100 + d1 * 10 + d0"
    by (rule digits_bucket)
  then show ?thesis by linarith
qed

lemma spell_hundreds_eq:
  assumes "digits_only b" and "length b = 3"
  shows "spell_hundreds b (string_to_integer b) this
           = Some (if string_to_integer b > 99
                   then this\<lparr>m_number_in_words :=
                          m_number_in_words this
                          @ word_for_ones ! nat (string_to_integer b div 100)
                          @ '' '' @ ''hundred'' @ '' ''\<rparr>
                   else this)"
proof -
  from assms obtain d2 d1 d0 c2 c1 c0 where
    b: "b = [c2, c1, c0]" and c2: "char_value c2 - 48 = d2"
    and r: "0 \<le> d2" "d2 \<le> 9" "0 \<le> d1" "d1 \<le> 9" "0 \<le> d0" "d0 \<le> 9"
    and v: "string_to_integer b = d2 * 100 + d1 * 10 + d0"
    by (rule digits_bucket)
  have dv: "string_to_integer b div 100 = d2"
    unfolding v using r by simp
  show ?thesis
  proof (cases "string_to_integer b > 99")
    case False
    then show ?thesis by (simp add: spell_hundreds_def)
  next
    case True
    then have "1 \<le> d2" using v r by simp
    then have "table_at word_for_ones d2 = Some (word_for_ones ! nat d2)"
      using r by (simp add: table_at_Some length_tables)
    then show ?thesis
      using True
      by (simp add: spell_hundreds_def char_at_def b c2 char_value_zero dv [unfolded b])
  qed
qed

lemma spell_tens_eq:
  assumes "0 \<le> v"
  shows "spell_tens v this
           = Some (if 10 < v mod 100 \<and> v mod 100 < 20
                   then (0, this\<lparr>m_number_in_words :=
                              m_number_in_words this
                              @ word_for_teens ! nat (v mod 100 - 10) @ '' ''\<rparr>)
                   else if 10 \<le> v mod 100
                   then (v mod 100, this\<lparr>m_number_in_words :=
                              m_number_in_words this
                              @ word_for_tens ! nat (v mod 100 div 10) @ '' ''\<rparr>)
                   else (v mod 100, this))"
proof -
  define r where "r = v mod 100"
  have r: "0 \<le> r" "r < 100" by (simp_all add: r_def)
  have sm: "v smod 100 = r" using assms by (simp add: smod_nonneg r_def)
  have sd: "r sdiv 10 = r div 10" using r by (simp add: sdiv_nonneg)
  have t1: "10 < r \<Longrightarrow> r < 20 \<Longrightarrow>
              table_at word_for_teens (r - 10) = Some (word_for_teens ! nat (r - 10))"
    by (simp add: table_at_Some length_tables)
  have t2: "10 \<le> r \<Longrightarrow>
              table_at word_for_tens (r div 10) = Some (word_for_tens ! nat (r div 10))"
    using r by (simp add: table_at_Some length_tables)
  show ?thesis
    unfolding spell_tens_def sm Let_def sd r_def [symmetric]
    using t1 t2 by simp
qed

lemma spell_ones_eq:
  assumes "0 \<le> n"
  shows "spell_ones n this
           = Some (if 0 < n mod 10
                   then this\<lparr>m_number_in_words :=
                          m_number_in_words this @ word_for_ones ! nat (n mod 10) @ '' ''\<rparr>
                   else this)"
proof -
  define r where "r = n mod 10"
  have r: "0 \<le> r" "r < 10" by (simp_all add: r_def)
  have sm: "n smod 10 = r" using assms by (simp add: smod_nonneg r_def)
  have t: "0 < r \<Longrightarrow> table_at word_for_ones r = Some (word_for_ones ! nat r)"
    using r by (simp add: table_at_Some length_tables)
  show ?thesis
    unfolding spell_ones_def sm Let_def r_def [symmetric]
    using t r by simp
qed

lemma spell_words_fields:
  assumes "digits_only b" and "length b = 3"
  shows "\<exists>this' w. spell_words b this = Some this'
           \<and> m_number_in_words this' = m_number_in_words this @ w
           \<and> m_number_in_words_and_digits this' = m_number_in_words_and_digits this
           \<and> m_number_in_digits this' = m_number_in_digits this"
proof -
  have v: "0 \<le> string_to_integer b"
    using string_to_integer_range [OF assms] by simp
  obtain this1 w1 where h: "spell_hundreds b (string_to_integer b) this = Some this1"
    and h1: "m_number_in_words this1 = m_number_in_words this @ w1"
    and h2: "m_number_in_words_and_digits this1 = m_number_in_words_and_digits this"
    and h3: "m_number_in_digits this1 = m_number_in_digits this"
    unfolding spell_hundreds_eq [OF assms]
    by (cases "string_to_integer b > 99") simp_all
  obtain n this2 w2 where t: "spell_tens (string_to_integer b) this1 = Some (n, this2)"
    and t0: "0 \<le> n"
    and t1: "m_number_in_words this2 = m_number_in_words this1 @ w2"
    and t2: "m_number_in_words_and_digits this2 = m_number_in_words_and_digits this1"
    and t3: "m_number_in_digits this2 = m_number_in_digits this1"
    unfolding spell_tens_eq [OF v]
    by (cases "10 < string_to_integer b mod 100 \<and> string_to_integer b mod 100 < 20";
        cases "10 \<le> string_to_integer b mod 100") simp_all
  obtain this3 w3 where o: "spell_ones n this2 = Some this3"
    and o1: "m_number_in_words this3 = m_number_in_words this2 @ w3"
    and o2: "m_number_in_words_and_digits this3 = m_number_in_words_and_digits this2"
    and o3: "m_number_in_digits this3 = m_number_in_digits this2"
    unfolding spell_ones_eq [OF t0]
    by (cases "0 < n mod 10") simp_all
  have "spell_words b this = Some this3"
    by (simp add: spell_words_def h t o)
  moreover have "m_number_in_words this3 = m_number_in_words this @ (w1 @ w2 @ w3)"
    by (simp add: o1 t1 h1)
  ultimately show ?thesis
    using o2 t2 h2 o3 t3 h3 by auto
qed

lemma spell_words_zero:
  assumes "string_to_integer b = 0"
  shows "spell_words b this = Some this"
proof -
  have "spell_hundreds b 0 this = Some this" by (simp add: spell_hundreds_def)
  moreover have "spell_tens 0 this = Some (0, this)" by (simp add: spell_tens_eq)
  moreover have "spell_ones 0 this = Some this" by (simp add: spell_ones_eq)
  ultimately show ?thesis by (simp add: spell_words_def assms)
qed

lemma spell_bucket_zero:
  assumes "string_to_integer b = 0"
  shows "spell_bucket b (this, False, bn) = Some (this, False, bn - 1)"
  by (simp add: spell_bucket_def spell_numeral_def spell_big_number_name_def assms
      spell_words_zero [OF assms])

lemma integer_to_string_not_Nil: "integer_to_string k \<noteq> []"
proof -
  have "decimal_nat n \<noteq> []" for n
    by (subst decimal_nat.simps) simp
  then show ?thesis
    by (simp add: integer_to_string_def decimal_int_def)
qed

lemma spell_bucket_flag:
  assumes "spell_bucket b (this, sh, bn) = Some (this', sh', bn')"
  shows "\<not> sh' \<and> bn' = bn - 1"
  using assms
  by (auto simp: spell_bucket_def spell_big_number_name_def
      split: prod.splits if_splits Option.bind_splits)

lemma spell_bucket_fields:
  assumes "digits_only b" and "length b = 3" and "0 \<le> bn" and "bn < 34"
  shows "\<exists>this' w d. spell_bucket b (this, False, bn) = Some (this', False, bn - 1)
           \<and> m_number_in_words this' = m_number_in_words this @ w
           \<and> m_number_in_words_and_digits this' = m_number_in_words_and_digits this @ d
           \<and> m_number_in_digits this' = m_number_in_digits this
           \<and> (string_to_integer b \<noteq> 0 \<longrightarrow> w \<noteq> [] \<and> d \<noteq> [])"
proof (cases "string_to_integer b = 0")
  case True
  then show ?thesis by (simp add: spell_bucket_zero)
next
  case False
  define this1 where
    "this1 = this\<lparr>m_number_in_words_and_digits :=
                    m_number_in_words_and_digits this
                    @ integer_to_string (string_to_integer b) @ '' ''\<rparr>"
  have n: "spell_numeral (string_to_integer b) (this, False) = (this1, True)"
    using False by (simp add: spell_numeral_def this1_def)
  from spell_words_fields [OF assms(1,2), of this1] obtain this2 w where
    w: "spell_words b this1 = Some this2"
    and w1: "m_number_in_words this2 = m_number_in_words this1 @ w"
    and w2: "m_number_in_words_and_digits this2 = m_number_in_words_and_digits this1"
    and w3: "m_number_in_digits this2 = m_number_in_digits this1"
    by blast
  define nm where "nm = name_for_big_numbers ! nat bn"
  have t: "table_at name_for_big_numbers bn = Some nm"
    using assms(3,4) by (simp add: table_at_Some length_tables nm_def)
  define this3 where
    "this3 = this2\<lparr>m_number_in_words := m_number_in_words this2 @ nm @ '' '',
                    m_number_in_words_and_digits :=
                      m_number_in_words_and_digits this2 @ nm @ '' ''\<rparr>"
  have s: "spell_big_number_name bn (this2, True) = Some (this3, False)"
    by (simp add: spell_big_number_name_def t this3_def)
  have r: "spell_bucket b (this, False, bn) = Some (this3, False, bn - 1)"
    by (simp add: spell_bucket_def n w s)
  have f1: "m_number_in_words this3 = m_number_in_words this @ (w @ nm @ '' '')"
    by (simp add: this3_def w1 this1_def)
  have f2: "m_number_in_words_and_digits this3
              = m_number_in_words_and_digits this
                @ (integer_to_string (string_to_integer b) @ '' '' @ nm @ '' '')"
    by (simp add: this3_def w2 this1_def)
  have f3: "m_number_in_digits this3 = m_number_in_digits this"
    by (simp add: this3_def w3 this1_def)
  have ne: "w @ nm @ '' '' \<noteq> []"
     "integer_to_string (string_to_integer b) @ '' '' @ nm @ '' '' \<noteq> []"
    by simp_all
  from r f1 f2 f3 ne show ?thesis by blast
qed

lemma spell_loop_append:
  "spell_loop (xs @ ys) st
     = (case spell_loop xs st of None \<Rightarrow> None | Some st' \<Rightarrow> spell_loop ys st')"
  by (induction xs arbitrary: st) (simp_all split: option.splits)

lemma spell_loop_flag:
  assumes "spell_loop bs (this, False, bn) = Some (this', sh', bn')"
  shows "\<not> sh' \<and> bn' = bn - int (length bs)"
  using assms
proof (induction bs arbitrary: this bn)
  case Nil
  then show ?case by simp
next
  case (Cons b bs)
  from Cons.prems obtain st where
    st: "spell_bucket b (this, False, bn) = Some st" and l: "spell_loop bs st = Some (this', sh', bn')"
    by (auto split: option.splits)
  obtain this1 sh1 bn1 where st1: "st = (this1, sh1, bn1)" by (cases st)
  from spell_bucket_flag [OF st [unfolded st1]] have f: "\<not> sh1" "bn1 = bn - 1" by simp_all
  from Cons.IH [of this1 bn1] l st1 f show ?case by simp
qed

lemma spell_loop_fields:
  assumes "\<forall>b \<in> set bs. digits_only b \<and> length b = 3"
    and "int (length bs) - 1 \<le> bn" and "bn < 34"
  shows "\<exists>this' w d. spell_loop bs (this, False, bn) = Some (this', False, bn - int (length bs))
           \<and> m_number_in_words this' = m_number_in_words this @ w
           \<and> m_number_in_words_and_digits this' = m_number_in_words_and_digits this @ d
           \<and> m_number_in_digits this' = m_number_in_digits this
           \<and> ((\<exists>b \<in> set bs. string_to_integer b \<noteq> 0) \<longrightarrow> w \<noteq> [] \<and> d \<noteq> [])"
  using assms
proof (induction bs arbitrary: this bn)
  case Nil
  then show ?case by simp
next
  case (Cons b bs)
  have b: "digits_only b" "length b = 3" using Cons.prems(1) by simp_all
  have bn: "0 \<le> bn" "bn < 34" using Cons.prems(2,3) by simp_all
  from spell_bucket_fields [OF b bn, of this] obtain this1 w1 d1 where
    s: "spell_bucket b (this, False, bn) = Some (this1, False, bn - 1)"
    and s1: "m_number_in_words this1 = m_number_in_words this @ w1"
    and s2: "m_number_in_words_and_digits this1 = m_number_in_words_and_digits this @ d1"
    and s3: "m_number_in_digits this1 = m_number_in_digits this"
    and s4: "string_to_integer b \<noteq> 0 \<longrightarrow> w1 \<noteq> [] \<and> d1 \<noteq> []"
    by blast
  have "\<forall>b \<in> set bs. digits_only b \<and> length b = 3" using Cons.prems(1) by simp
  moreover have "int (length bs) - 1 \<le> bn - 1" "bn - 1 < 34" using Cons.prems(2,3) by simp_all
  ultimately obtain this2 w2 d2 where
    l: "spell_loop bs (this1, False, bn - 1) = Some (this2, False, bn - 1 - int (length bs))"
    and l1: "m_number_in_words this2 = m_number_in_words this1 @ w2"
    and l2: "m_number_in_words_and_digits this2 = m_number_in_words_and_digits this1 @ d2"
    and l3: "m_number_in_digits this2 = m_number_in_digits this1"
    and l4: "(\<exists>b \<in> set bs. string_to_integer b \<noteq> 0) \<longrightarrow> w2 \<noteq> [] \<and> d2 \<noteq> []"
    using Cons.IH [of "bn - 1" this1] by blast
  have c0: "spell_loop (b # bs) (this, False, bn)
              = Some (this2, False, bn - int (length (b # bs)))"
    by (simp add: s l)
  have c1: "m_number_in_words this2 = m_number_in_words this @ (w1 @ w2)"
    by (simp add: l1 s1)
  have c2: "m_number_in_words_and_digits this2 = m_number_in_words_and_digits this @ (d1 @ d2)"
    by (simp add: l2 s2)
  have c3: "m_number_in_digits this2 = m_number_in_digits this"
    by (simp add: l3 s3)
  have c4: "(\<exists>b \<in> set (b # bs). string_to_integer b \<noteq> 0) \<longrightarrow> w1 @ w2 \<noteq> [] \<and> d1 @ d2 \<noteq> []"
    using s4 l4 by auto
  from c0 c1 c2 c3 c4 show ?case by blast
qed

subsection \<open>The whole run\<close>

lemma do_spell_run:
  assumes "split_number_to_buckets_of_3_digits (m_number_in_digits this) [] = (n, bucket)"
  shows "n = int (length bucket)"
    and "do_spell this
           = map_option fst
               (spell_loop bucket
                  (this\<lparr>m_number_in_words := '''', m_number_in_words_and_digits := ''''\<rparr>,
                   False, int (length bucket) - 1))"
proof -
  from split_number_groups [of "m_number_in_digits this" "[]"] assms
  show n: "n = int (length bucket)" by auto
  show "do_spell this
           = map_option fst
               (spell_loop bucket
                  (this\<lparr>m_number_in_words := '''', m_number_in_words_and_digits := ''''\<rparr>,
                   False, int (length bucket) - 1))"
    using assms by (simp add: do_spell_def n)
qed

lemma digits_sum_zero:
  fixes a b c :: int
  assumes "0 \<le> a" and "0 \<le> b" and "0 \<le> c" and "a * 100 + b * 10 + c = 0"
  shows "a = 0" and "b = 0" and "c = 0"
proof -
  have "a \<le> 0" using assms by linarith
  with assms(1) show "a = 0" by simp
  have "b \<le> 0" using assms by linarith
  with assms(2) show "b = 0" by simp
  have "c \<le> 0" using assms by linarith
  with assms(3) show "c = 0" by simp
qed

lemma bucket_zero_chars:
  assumes "digits_only b" and "length b = 3" and "string_to_integer b = 0"
  shows "b = ''000''"
proof -
  from assms(2) obtain c2 c1 c0 where b: "b = [c2, c1, c0]" by (rule bucket_cases)
  have c: "c2 \<in> set ''0123456789''" "c1 \<in> set ''0123456789''" "c0 \<in> set ''0123456789''"
    using assms(1) unfolding digits_only_def b by simp_all
  note d = c [THEN digit_char_value]
  have d0: "0 \<le> char_value c2 - 48" "0 \<le> char_value c1 - 48" "0 \<le> char_value c0 - 48"
    using d by simp_all
  have "(char_value c2 - 48) * 100 + (char_value c1 - 48) * 10 + (char_value c0 - 48) = 0"
    using assms(3) unfolding b string_to_integer_3 .
  note z = digits_sum_zero [OF d0 this]
  have "c2 = CHR ''0''" using z(1) digit_is_zero [OF c(1)] by blast
  moreover have "c1 = CHR ''0''" using z(2) digit_is_zero [OF c(2)] by blast
  moreover have "c0 = CHR ''0''" using z(3) digit_is_zero [OF c(3)] by blast
  ultimately show ?thesis unfolding b by simp
qed

lemma digits_only_concat:
  "digits_only (concat xs) \<longleftrightarrow> (\<forall>x \<in> set xs. digits_only x)"
  unfolding digits_only_def set_concat by blast

lemma digits_only_append:
  "digits_only (xs @ ys) \<longleftrightarrow> digits_only xs \<and> digits_only ys"
  unfolding digits_only_def set_append by blast

lemma digits_only_zeros: "digits_only (replicate n (CHR ''0''))"
  unfolding digits_only_def by (induction n) simp_all

lemma groups_bound: "n \<le> 102 \<Longrightarrow> int ((n + 2) div 3) - 1 < 34" for n :: nat
  by simp

lemma groups_of_digits:
  assumes "digits_only s"
    and "split_number_to_buckets_of_3_digits s [] = (n, bucket)"
  shows "\<forall>b \<in> set bucket. digits_only b \<and> length b = 3"
    and "length bucket = (length s + 2) div 3"
    and "(\<exists>c \<in> set s. c \<noteq> CHR ''0'') \<longrightarrow> (\<exists>b \<in> set bucket. string_to_integer b \<noteq> 0)"
proof -
  from split_number_groups [of s "[]"] assms(2)
  have cat: "concat bucket = replicate ((3 - length s mod 3) mod 3) (CHR ''0'') @ s"
    and len: "\<forall>g \<in> set bucket. length g = 3"
    and cnt: "length bucket = (length s + 2) div 3"
    by auto
  have "digits_only (concat bucket)"
    unfolding cat digits_only_append using assms(1) digits_only_zeros by blast
  then have dig: "\<forall>b \<in> set bucket. digits_only b"
    by (simp only: digits_only_concat)
  show all: "\<forall>b \<in> set bucket. digits_only b \<and> length b = 3"
    using dig len by blast
  show "length bucket = (length s + 2) div 3" by (rule cnt)
  show "(\<exists>c \<in> set s. c \<noteq> CHR ''0'') \<longrightarrow> (\<exists>b \<in> set bucket. string_to_integer b \<noteq> 0)"
  proof
    assume "\<exists>c \<in> set s. c \<noteq> CHR ''0''"
    then obtain c where c: "c \<in> set s" "c \<noteq> CHR ''0''" by blast
    then have "c \<in> set (concat bucket)" unfolding cat by simp
    then obtain b where b: "b \<in> set bucket" "c \<in> set b"
      unfolding set_concat by blast
    have "string_to_integer b \<noteq> 0"
    proof
      assume "string_to_integer b = 0"
      with all b(1) have "b = ''000''" by (blast intro: bucket_zero_chars)
      with b(2) c(2) show False by simp
    qed
    with b(1) show "\<exists>b \<in> set bucket. string_to_integer b \<noteq> 0" by blast
  qed
qed

lemma do_spell_digits:
  assumes "digits_only s" and "length s \<le> 102" and "\<exists>c \<in> set s. c \<noteq> CHR ''0''"
    and "m_number_in_digits this = s"
  shows "\<exists>this'. do_spell this = Some this'
           \<and> m_number_in_words this' \<noteq> []
           \<and> m_number_in_words_and_digits this' \<noteq> []
           \<and> m_number_in_digits this' = s"
proof -
  obtain n bucket where sp: "split_number_to_buckets_of_3_digits s [] = (n, bucket)"
    by (cases "split_number_to_buckets_of_3_digits s []")
  note g = groups_of_digits [OF assms(1) sp]
  have l34: "int (length bucket) - 1 < 34"
    unfolding g(2) using assms(2) by (rule groups_bound)
  define this0 where
    "this0 = this\<lparr>m_number_in_words := '''', m_number_in_words_and_digits := ''''\<rparr>"
  have nz: "\<exists>b \<in> set bucket. string_to_integer b \<noteq> 0"
    using g(3) assms(3) by blast
  from spell_loop_fields [OF g(1) order_refl l34, of this0] nz
  obtain this' w d where
    l: "spell_loop bucket (this0, False, int (length bucket) - 1)
          = Some (this', False, int (length bucket) - 1 - int (length bucket))"
    and l1: "m_number_in_words this' = m_number_in_words this0 @ w"
    and l2: "m_number_in_words_and_digits this' = m_number_in_words_and_digits this0 @ d"
    and l3: "m_number_in_digits this' = m_number_in_digits this0"
    and l4: "w \<noteq> []" "d \<noteq> []"
    by blast
  have "do_spell this = Some this'"
    using do_spell_run(2) [of this n bucket] sp assms(4) l
    by (simp add: this0_def)
  then show ?thesis
    using l1 l2 l3 l4 assms(4) by (simp add: this0_def)
qed

lemma sanitized_number_digits:
  assumes "digits_only D" and "\<exists>c \<in> set D. c \<noteq> CHR ''0''"
  shows "sanitized_number D = dropWhile (\<lambda>c. c = CHR ''0'') D"
    and "digits_only (sanitized_number D)"
    and "length (sanitized_number D) \<le> length D"
    and "\<exists>c \<in> set (sanitized_number D). c \<noteq> CHR ''0''"
    and "sanitized_number D \<noteq> []"
proof -
  have "\<forall>c \<in> set D. c \<noteq> CHR '',''"
    using assms(1) digit_not_comma unfolding digits_only_def by blast
  then have "filter (\<lambda>c. c \<noteq> CHR '','') D = D"
    by (simp only: filter_id_conv)
  then show s: "sanitized_number D = dropWhile (\<lambda>c. c = CHR ''0'') D"
    by (simp only: sanitized_number_eq)
  show "digits_only (sanitized_number D)"
    using assms(1) set_dropWhileD [of _ "\<lambda>c. c = CHR ''0''" D]
    unfolding s digits_only_def by blast
  show "length (sanitized_number D) \<le> length D"
    unfolding s by (rule length_dropWhile_le)
  have ne: "dropWhile (\<lambda>c. c = CHR ''0'') D \<noteq> []"
    using assms(2) by (simp add: dropWhile_eq_Nil_conv)
  then show "sanitized_number D \<noteq> []" by (simp add: s)
  from ne have "hd (dropWhile (\<lambda>c. c = CHR ''0'') D) \<noteq> CHR ''0''"
    using hd_dropWhile [of "\<lambda>c. c = CHR ''0''" D] by simp
  moreover from ne have "hd (dropWhile (\<lambda>c. c = CHR ''0'') D)
                          \<in> set (dropWhile (\<lambda>c. c = CHR ''0'') D)"
    by (rule hd_in_set)
  ultimately show "\<exists>c \<in> set (sanitized_number D). c \<noteq> CHR ''0''"
    unfolding s by blast
qed

text \<open>
  Claim C3: for a string \<open>D\<close> of 1 to 101 decimal digits that are not all zero, the
  constructor accepts \<open>D\<close> and stores its normalisation, \<open>do_spell\<close> returns on that
  object (every table access inside its table, the loop being a recursion over the
  list of buckets), and both result strings are non-empty afterwards.
\<close>

theorem C3_spell_terminates:
  assumes "digits_only D" and "1 \<le> length D" and "length D \<le> 101"
    and "\<exists>c \<in> set D. c \<noteq> CHR ''0''"
  shows "\<exists>this this'.
           Spell D = Inr this
         \<and> number_in_digits this = sanitized_number D
         \<and> do_spell this = Some this'
         \<and> number_in_words this' \<noteq> []
         \<and> number_in_words_and_digits this' \<noteq> []
         \<and> main_spell D = Inr (Some (number_in_words this', number_in_words_and_digits this'))"
proof -
  note s = sanitized_number_digits [OF assms(1,4)]
  have len: "length (sanitized_number D) \<le> 102"
    using s(3) assms(3) by simp
  have "is_valid_number (sanitized_number D)"
    using is_valid_number_digits [OF s(2)] s(5) len by simp
  then have set: "set_number_in_digits D this0
                    = (Inr (), this0\<lparr>m_number_in_digits := sanitized_number D\<rparr>)" for this0
    by (rule set_number_in_digits_valid)
  define this where
    "this = \<lparr>m_number_in_digits = sanitized_number D, m_number_in_words = '''',
             m_number_in_words_and_digits = ''''\<rparr>"
  have new: "Spell D = Inr this"
    by (simp add: Spell_def set this_def)
  have dig: "m_number_in_digits this = sanitized_number D"
    by (simp add: this_def)
  from do_spell_digits [OF s(2) len s(4) dig] obtain this' where
    r: "do_spell this = Some this'" "m_number_in_words this' \<noteq> []"
       "m_number_in_words_and_digits this' \<noteq> []"
    by blast
  have "main_spell D = Inr (Some (number_in_words this', number_in_words_and_digits this'))"
    by (simp add: main_spell_def new r(1))
  with new dig r show ?thesis
    by (simp add: number_in_digits_def number_in_words_def number_in_words_and_digits_def)
qed

theorem C3_spell_terminates_witness:
  "digits_only ''100020'' \<and> 1 \<le> length ''100020'' \<and> length ''100020'' \<le> 101
   \<and> (\<exists>c \<in> set ''100020''. c \<noteq> CHR ''0'')
   \<and> (\<exists>this this'.
           Spell ''100020'' = Inr this
         \<and> number_in_digits this = sanitized_number ''100020''
         \<and> do_spell this = Some this'
         \<and> number_in_words this' \<noteq> []
         \<and> number_in_words_and_digits this' \<noteq> []
         \<and> main_spell ''100020''
             = Inr (Some (number_in_words this', number_in_words_and_digits this')))"
proof -
  have a: "digits_only ''100020''" by (simp add: digits_only_def)
  have b: "1 \<le> length ''100020''" "length ''100020'' \<le> 101" by simp_all
  have c: "\<exists>c \<in> set ''100020''. c \<noteq> CHR ''0''" by simp
  from a b c C3_spell_terminates [OF a b c] show ?thesis by blast
qed

section \<open>What a bucket contributes\<close>

lemma spell_loop_skip_zero:
  assumes "string_to_integer b = 0"
  shows "spell_loop (pre @ b # post) (this, False, bn)
           = (case spell_loop pre (this, False, bn) of
                None \<Rightarrow> None
              | Some (this', sh', bn') \<Rightarrow> spell_loop post (this', sh', bn' - 1))"
proof (cases "spell_loop pre (this, False, bn)")
  case None
  then show ?thesis by (simp add: spell_loop_append)
next
  case (Some st)
  obtain this' sh' bn' where st: "st = (this', sh', bn')" by (cases st)
  from spell_loop_flag [OF Some [unfolded st]] have sh: "\<not> sh'" by simp
  have "spell_loop (b # post) (this', sh', bn') = spell_loop post (this', sh', bn' - 1)"
    using sh by (simp add: spell_bucket_zero [OF assms])
  then show ?thesis by (simp add: spell_loop_append Some st)
qed

lemma string_to_integer_000: "string_to_integer ''000'' = 0"
  by (simp add: string_to_integer_def)

text \<open>
  Claim C4: a bucket whose value is 0 leaves the object and the flag as they are and
  only counts \<open>big_number\<close> down: no numeral, no word, no scale name. So the loop over
  buckets with such a bucket among them is the loop without it (the counter apart),
  also inside \<open>do_spell\<close>; and \<open>"1,000,000"\<close> is spelled \<open>"one million "\<close> and
  \<open>"1 million "\<close>.
\<close>

theorem C4_zero_group_silent:
  assumes "string_to_integer b = 0"
  shows "spell_bucket b (this, False, bn) = Some (this, False, bn - 1)
       \<and> spell_loop (pre @ b # post) (this, False, bn)
           = (case spell_loop pre (this, False, bn) of
                None \<Rightarrow> None
              | Some (this', sh', bn') \<Rightarrow> spell_loop post (this', sh', bn' - 1))
       \<and> (split_number_to_buckets_of_3_digits (m_number_in_digits obj) [] = (n, pre @ b # post)
            \<longrightarrow> do_spell obj
                 = map_option fst
                     (case spell_loop pre
                             (obj\<lparr>m_number_in_words := '''',
                                  m_number_in_words_and_digits := ''''\<rparr>, False, n - 1) of
                        None \<Rightarrow> None
                      | Some (this', sh', bn') \<Rightarrow> spell_loop post (this', sh', bn' - 1)))
       \<and> main_spell ''1,000,000'' = Inr (Some (''one million '', ''1 million ''))"
proof -
  have a: "spell_bucket b (this, False, bn) = Some (this, False, bn - 1)"
    using assms by (rule spell_bucket_zero)
  have c: "do_spell obj
             = map_option fst
                 (case spell_loop pre
                         (obj\<lparr>m_number_in_words := '''',
                              m_number_in_words_and_digits := ''''\<rparr>, False, n - 1) of
                    None \<Rightarrow> None
                  | Some (this', sh', bn') \<Rightarrow> spell_loop post (this', sh', bn' - 1))"
    if sp: "split_number_to_buckets_of_3_digits (m_number_in_digits obj) [] = (n, pre @ b # post)"
  proof -
    note r = do_spell_run [OF sp]
    show ?thesis
      unfolding r(2) r(1) [symmetric] spell_loop_skip_zero [OF assms] ..
  qed
  have d: "main_spell ''1,000,000'' = Inr (Some (''one million '', ''1 million ''))"
    by code_simp
  from a spell_loop_skip_zero [OF assms] c d show ?thesis by blast
qed

theorem C4_zero_group_silent_witness:
  "string_to_integer ''000'' = 0
   \<and> split_number_to_buckets_of_3_digits ''1000000'' [] = (3, [''001'', ''000'', ''000''])
   \<and> spell_loop [''001'']
        (\<lparr>m_number_in_digits = ''1000000'', m_number_in_words = '''',
          m_number_in_words_and_digits = ''''\<rparr>, False, 2)
       = Some (\<lparr>m_number_in_digits = ''1000000'', m_number_in_words = ''one million '',
                m_number_in_words_and_digits = ''1 million ''\<rparr>, False, 1)
   \<and> spell_bucket ''000''
        (\<lparr>m_number_in_digits = ''1000000'', m_number_in_words = ''one million '',
          m_number_in_words_and_digits = ''1 million ''\<rparr>, False, 1)
       = Some (\<lparr>m_number_in_digits = ''1000000'', m_number_in_words = ''one million '',
                m_number_in_words_and_digits = ''1 million ''\<rparr>, False, 0)
   \<and> do_spell \<lparr>m_number_in_digits = ''1000000'', m_number_in_words = ''seven  '',
                 m_number_in_words_and_digits = ''7  ''\<rparr>
       = Some \<lparr>m_number_in_digits = ''1000000'', m_number_in_words = ''one million '',
               m_number_in_words_and_digits = ''1 million ''\<rparr>"
proof -
  have h: "string_to_integer ''000'' = 0"
    by (rule string_to_integer_000)
  have sp: "split_number_to_buckets_of_3_digits ''1000000'' []
              = (3, [''001'', ''000'', ''000''])"
    by code_simp
  have l1: "spell_loop [''001'']
              (\<lparr>m_number_in_digits = ''1000000'', m_number_in_words = '''',
                m_number_in_words_and_digits = ''''\<rparr>, False, 2)
            = Some (\<lparr>m_number_in_digits = ''1000000'', m_number_in_words = ''one million '',
                     m_number_in_words_and_digits = ''1 million ''\<rparr>, False, 1)"
    by code_simp
  have l2: "spell_loop [''000'']
              (\<lparr>m_number_in_digits = ''1000000'', m_number_in_words = ''one million '',
                m_number_in_words_and_digits = ''1 million ''\<rparr>, False, 0)
            = Some (\<lparr>m_number_in_digits = ''1000000'', m_number_in_words = ''one million '',
                     m_number_in_words_and_digits = ''1 million ''\<rparr>, False, - 1)"
    by code_simp
  show ?thesis
    using h sp l1 l2
      C4_zero_group_silent [OF h,
        where this = "\<lparr>m_number_in_digits = ''1000000'', m_number_in_words = ''one million '',
             m_number_in_words_and_digits = ''1 million ''\<rparr>"
          and bn = 1
          and obj = "\<lparr>m_number_in_digits = ''1000000'', m_number_in_words = ''seven  '',
             m_number_in_words_and_digits = ''7  ''\<rparr>"
          and n = 3 and pre = "[''001'']" and post = "[''000'']"]
    by simp
qed

lemma teen_word:
  assumes "11 \<le> r" and "r \<le> 19"
  shows "word_for_teens ! nat (r - 10)
           \<in> set [''eleven'', ''twelve'', ''thirteen'', ''fourteen'', ''fifteen'',
                  ''sixteen'', ''seventeen'', ''eighteen'', ''nineteen'']"
proof -
  from assms have "r = 11 \<or> r = 12 \<or> r = 13 \<or> r = 14 \<or> r = 15 \<or> r = 16
                   \<or> r = 17 \<or> r = 18 \<or> r = 19"
    by linarith
  then show ?thesis
    by (elim disjE) (simp_all add: word_for_teens_def)
qed

lemma ten_word: "word_for_tens ! nat (10 div 10) = ''ten''"
  by (simp add: word_for_tens_def)

text \<open>
  Claim C5: for a bucket of three digits whose value modulo 100 is in 11..19, the tens
  block appends the one word of the teens table and hands on 0, so that the ones block
  appends nothing: after the hundreds, the words of the bucket are that teen word and a
  space. When the value modulo 100 is 10, the word comes from the tens table and is
  \<open>"ten"\<close>, and the ones block appends nothing either.
\<close>

theorem C5_teens_and_ten:
  assumes "digits_only b" and "length b = 3"
  shows "(string_to_integer b mod 100 \<in> {11..19} \<longrightarrow>
            (\<exists>this1.
                spell_hundreds b (string_to_integer b) this = Some this1
              \<and> spell_tens (string_to_integer b) this1
                  = Some (0, this1\<lparr>m_number_in_words :=
                                m_number_in_words this1
                                @ word_for_teens ! nat (string_to_integer b mod 100 - 10)
                                @ '' ''\<rparr>)
              \<and> spell_words b this
                  = Some (this1\<lparr>m_number_in_words :=
                             m_number_in_words this1
                             @ word_for_teens ! nat (string_to_integer b mod 100 - 10)
                             @ '' ''\<rparr>)
              \<and> word_for_teens ! nat (string_to_integer b mod 100 - 10)
                  \<in> set [''eleven'', ''twelve'', ''thirteen'', ''fourteen'', ''fifteen'',
                         ''sixteen'', ''seventeen'', ''eighteen'', ''nineteen'']))
       \<and> (string_to_integer b mod 100 = 10 \<longrightarrow>
            (\<exists>this1.
                spell_hundreds b (string_to_integer b) this = Some this1
              \<and> spell_tens (string_to_integer b) this1
                  = Some (10, this1\<lparr>m_number_in_words :=
                                 m_number_in_words this1 @ ''ten'' @ '' ''\<rparr>)
              \<and> spell_words b this
                  = Some (this1\<lparr>m_number_in_words :=
                             m_number_in_words this1 @ ''ten'' @ '' ''\<rparr>)))"
proof -
  define v where "v = string_to_integer b"
  have v: "0 \<le> v" using string_to_integer_range [OF assms] by (simp add: v_def)
  obtain this1 where h: "spell_hundreds b v this = Some this1"
    unfolding v_def spell_hundreds_eq [OF assms] by simp
  have teens: "spell_tens v this1
                 = Some (0, this1\<lparr>m_number_in_words :=
                               m_number_in_words this1
                               @ word_for_teens ! nat (v mod 100 - 10) @ '' ''\<rparr>)
             \<and> spell_words b this
                 = Some (this1\<lparr>m_number_in_words :=
                            m_number_in_words this1
                            @ word_for_teens ! nat (v mod 100 - 10) @ '' ''\<rparr>)
             \<and> word_for_teens ! nat (v mod 100 - 10)
                 \<in> set [''eleven'', ''twelve'', ''thirteen'', ''fourteen'', ''fifteen'',
                        ''sixteen'', ''seventeen'', ''eighteen'', ''nineteen'']"
    if r: "v mod 100 \<in> {11..19}"
  proof -
    from r have r': "11 \<le> v mod 100" "v mod 100 \<le> 19" by simp_all
    have t: "spell_tens v this1
               = Some (0, this1\<lparr>m_number_in_words :=
                             m_number_in_words this1
                             @ word_for_teens ! nat (v mod 100 - 10) @ '' ''\<rparr>)"
      unfolding spell_tens_eq [OF v] using r' by simp
    have o: "spell_ones 0 this2 = Some this2" for this2
      by (simp add: spell_ones_eq)
    have w: "spell_words b this
               = Some (this1\<lparr>m_number_in_words :=
                          m_number_in_words this1
                          @ word_for_teens ! nat (v mod 100 - 10) @ '' ''\<rparr>)"
      using h t by (simp add: spell_words_def v_def [symmetric] o)
    from t w teen_word [OF r'] show ?thesis by blast
  qed
  have ten: "spell_tens v this1
               = Some (10, this1\<lparr>m_number_in_words :=
                              m_number_in_words this1 @ ''ten'' @ '' ''\<rparr>)
           \<and> spell_words b this
               = Some (this1\<lparr>m_number_in_words :=
                          m_number_in_words this1 @ ''ten'' @ '' ''\<rparr>)"
    if r: "v mod 100 = 10"
  proof -
    have t: "spell_tens v this1
               = Some (10, this1\<lparr>m_number_in_words :=
                              m_number_in_words this1 @ ''ten'' @ '' ''\<rparr>)"
      unfolding spell_tens_eq [OF v] r using ten_word by simp
    have o: "spell_ones 10 this2 = Some this2" for this2
      by (simp add: spell_ones_eq)
    have w: "spell_words b this
               = Some (this1\<lparr>m_number_in_words :=
                          m_number_in_words this1 @ ''ten'' @ '' ''\<rparr>)"
      using h t by (simp add: spell_words_def v_def [symmetric] o)
    from t w show ?thesis by blast
  qed
  from h teens ten show ?thesis
    unfolding v_def by blast
qed

theorem C5_teens_and_ten_witness:
  "digits_only ''314'' \<and> length ''314'' = 3 \<and> string_to_integer ''314'' mod 100 \<in> {11..19}
   \<and> spell_words ''314''
        \<lparr>m_number_in_digits = ''314'', m_number_in_words = '''',
         m_number_in_words_and_digits = ''314 ''\<rparr>
       = Some \<lparr>m_number_in_digits = ''314'', m_number_in_words = ''three hundred fourteen '',
               m_number_in_words_and_digits = ''314 ''\<rparr>
   \<and> digits_only ''110'' \<and> length ''110'' = 3 \<and> string_to_integer ''110'' mod 100 = 10
   \<and> spell_words ''110''
        \<lparr>m_number_in_digits = ''110'', m_number_in_words = '''',
         m_number_in_words_and_digits = ''110 ''\<rparr>
       = Some \<lparr>m_number_in_digits = ''110'', m_number_in_words = ''one hundred ten '',
               m_number_in_words_and_digits = ''110 ''\<rparr>"
proof -
  have a: "digits_only ''314''" "digits_only ''110''"
    by (simp_all add: digits_only_def)
  have b: "length ''314'' = 3" "length ''110'' = 3"
    by simp_all
  have v: "string_to_integer ''314'' = 314" "string_to_integer ''110'' = 110"
    by (simp_all add: string_to_integer_def char_value_def)
  have h1: "spell_hundreds ''314'' 314
              \<lparr>m_number_in_digits = ''314'', m_number_in_words = '''',
               m_number_in_words_and_digits = ''314 ''\<rparr>
            = Some \<lparr>m_number_in_digits = ''314'', m_number_in_words = ''three hundred '',
                    m_number_in_words_and_digits = ''314 ''\<rparr>"
    by code_simp
  have h2: "spell_hundreds ''110'' 110
              \<lparr>m_number_in_digits = ''110'', m_number_in_words = '''',
               m_number_in_words_and_digits = ''110 ''\<rparr>
            = Some \<lparr>m_number_in_digits = ''110'', m_number_in_words = ''one hundred '',
                    m_number_in_words_and_digits = ''110 ''\<rparr>"
    by code_simp
  have t: "word_for_teens ! nat (314 mod 100 - 10) = ''fourteen''"
    by (simp add: word_for_teens_def)
  show ?thesis
    using a b
      C5_teens_and_ten [OF a(1) b(1),
        of "\<lparr>m_number_in_digits = ''314'', m_number_in_words = '''',
             m_number_in_words_and_digits = ''314 ''\<rparr>"]
      C5_teens_and_ten [OF a(2) b(2),
        of "\<lparr>m_number_in_digits = ''110'', m_number_in_words = '''',
             m_number_in_words_and_digits = ''110 ''\<rparr>"]
    unfolding v h1 h2 t
    by simp
qed

lemma spell_bucket_units:
  assumes "digits_only b" and "length b = 3" and "string_to_integer b \<noteq> 0"
  shows "\<exists>this1.
           spell_words b
             (this\<lparr>m_number_in_words_and_digits :=
                     m_number_in_words_and_digits this
                     @ integer_to_string (string_to_integer b) @ '' ''\<rparr>) = Some this1
         \<and> spell_bucket b (this, False, 0)
             = Some (this1\<lparr>m_number_in_words := m_number_in_words this1 @ '' '',
                           m_number_in_words_and_digits :=
                             m_number_in_words_and_digits this1 @ '' ''\<rparr>,
                     False, - 1)"
proof -
  define this0 where
    "this0 = this\<lparr>m_number_in_words_and_digits :=
                    m_number_in_words_and_digits this
                    @ integer_to_string (string_to_integer b) @ '' ''\<rparr>"
  have n: "spell_numeral (string_to_integer b) (this, False) = (this0, True)"
    using assms(3) by (simp add: spell_numeral_def this0_def)
  from spell_words_fields [OF assms(1,2), of this0] obtain this1 where
    w: "spell_words b this0 = Some this1"
    by blast
  have t: "table_at name_for_big_numbers 0 = Some ''''"
    by (simp add: table_at_def name_for_big_numbers_def)
  have s: "spell_big_number_name 0 (this1, True)
             = Some (this1\<lparr>m_number_in_words := m_number_in_words this1 @ '' '',
                           m_number_in_words_and_digits :=
                             m_number_in_words_and_digits this1 @ '' ''\<rparr>, False)"
    by (simp add: spell_big_number_name_def t)
  have "spell_bucket b (this, False, 0)
          = Some (this1\<lparr>m_number_in_words := m_number_in_words this1 @ '' '',
                        m_number_in_words_and_digits :=
                          m_number_in_words_and_digits this1 @ '' ''\<rparr>, False, - 1)"
    by (simp add: spell_bucket_def n w s)
  with w show ?thesis unfolding this0_def by blast
qed

text \<open>
  The scale name is appended with its space whenever the flag is set, whatever
  \<open>big_number\<close> is; at 0 the name is empty and the space remains. So \<open>"14"\<close> is
  spelled with two spaces at the end of each result, not one.
\<close>

theorem C2_counterexample:
  "main_spell ''14'' = Inr (Some (''fourteen  '', ''14  ''))
   \<and> main_spell ''14'' \<noteq> Inr (Some (''fourteen '', ''14 ''))"
  by code_simp

text \<open>
  Claim C2, as the code has it: for a valid number whose last bucket (scale index 0)
  is not zero, \<open>do_spell\<close> appends exactly one space to each result after the numeral
  and the words of that bucket, the empty scale name followed by its separator. So
  \<open>"14"\<close> gives \<open>"fourteen  "\<close> and \<open>"14  "\<close>, two spaces at the end of each.
\<close>

theorem C2_units_group:
  assumes "digits_only s" and "s \<noteq> []" and "length s \<le> 102"
    and "m_number_in_digits obj = s"
    and "split_number_to_buckets_of_3_digits s [] = (n, pre @ [b])"
    and "string_to_integer b \<noteq> 0"
  shows "(\<exists>st this1.
            spell_loop pre
              (obj\<lparr>m_number_in_words := '''', m_number_in_words_and_digits := ''''\<rparr>,
               False, n - 1) = Some (st, False, 0)
          \<and> spell_words b
              (st\<lparr>m_number_in_words_and_digits :=
                    m_number_in_words_and_digits st
                    @ integer_to_string (string_to_integer b) @ '' ''\<rparr>) = Some this1
          \<and> do_spell obj
              = Some (this1\<lparr>m_number_in_words := m_number_in_words this1 @ '' '',
                            m_number_in_words_and_digits :=
                              m_number_in_words_and_digits this1 @ '' ''\<rparr>))
       \<and> main_spell ''14'' = Inr (Some (''fourteen  '', ''14  ''))"
proof -
  note g = groups_of_digits [OF assms(1,5)]
  have b: "digits_only b" "length b = 3" using g(1) by simp_all
  have pre: "\<forall>x \<in> set pre. digits_only x \<and> length x = 3" using g(1) by simp
  have n: "n = int (length pre) + 1"
    using do_spell_run(1) [of obj n "pre @ [b]"] assms(4,5) by simp
  have "int (length (pre @ [b])) - 1 < 34"
    unfolding g(2) using assms(3) by (rule groups_bound)
  then have bn: "int (length pre) - 1 \<le> n - 1" "n - 1 < 34"
    by (simp_all add: n)
  define obj0 where
    "obj0 = obj\<lparr>m_number_in_words := '''', m_number_in_words_and_digits := ''''\<rparr>"
  from spell_loop_fields [OF pre bn, of obj0] obtain st where
    l: "spell_loop pre (obj0, False, n - 1) = Some (st, False, 0)"
    by (auto simp: n)
  from spell_bucket_units [OF b assms(6), of st] obtain this1 where
    w: "spell_words b
          (st\<lparr>m_number_in_words_and_digits :=
                m_number_in_words_and_digits st
                @ integer_to_string (string_to_integer b) @ '' ''\<rparr>) = Some this1"
    and u: "spell_bucket b (st, False, 0)
              = Some (this1\<lparr>m_number_in_words := m_number_in_words this1 @ '' '',
                            m_number_in_words_and_digits :=
                              m_number_in_words_and_digits this1 @ '' ''\<rparr>, False, - 1)"
    by blast
  have "spell_loop (pre @ [b]) (obj0, False, n - 1)
          = Some (this1\<lparr>m_number_in_words := m_number_in_words this1 @ '' '',
                        m_number_in_words_and_digits :=
                          m_number_in_words_and_digits this1 @ '' ''\<rparr>, False, - 1)"
    by (simp add: spell_loop_append l u)
  then have d: "do_spell obj
                  = Some (this1\<lparr>m_number_in_words := m_number_in_words this1 @ '' '',
                                m_number_in_words_and_digits :=
                                  m_number_in_words_and_digits this1 @ '' ''\<rparr>)"
    using do_spell_run(2) [of obj n "pre @ [b]"] assms(4,5)
    by (simp add: obj0_def n)
  have e: "main_spell ''14'' = Inr (Some (''fourteen  '', ''14  ''))"
    by code_simp
  from l w d e show ?thesis unfolding obj0_def by blast
qed

theorem C2_units_group_witness:
  "digits_only ''14'' \<and> ''14'' \<noteq> [] \<and> length ''14'' \<le> 102
   \<and> split_number_to_buckets_of_3_digits ''14'' [] = (1, [] @ [''014''])
   \<and> string_to_integer ''014'' \<noteq> 0
   \<and> spell_words ''014''
        \<lparr>m_number_in_digits = ''14'', m_number_in_words = '''',
         m_number_in_words_and_digits = ''14 ''\<rparr>
       = Some \<lparr>m_number_in_digits = ''14'', m_number_in_words = ''fourteen '',
               m_number_in_words_and_digits = ''14 ''\<rparr>
   \<and> do_spell \<lparr>m_number_in_digits = ''14'', m_number_in_words = ''seven  '',
                 m_number_in_words_and_digits = ''7  ''\<rparr>
       = Some \<lparr>m_number_in_digits = ''14'', m_number_in_words = ''fourteen  '',
               m_number_in_words_and_digits = ''14  ''\<rparr>"
proof -
  have a: "digits_only ''14''" by (simp add: digits_only_def)
  have b: "''14'' \<noteq> []" "length ''14'' \<le> 102" by simp_all
  have c: "m_number_in_digits \<lparr>m_number_in_digits = ''14'', m_number_in_words = ''seven  '',
             m_number_in_words_and_digits = ''7  ''\<rparr> = ''14''"
    by simp
  have d: "split_number_to_buckets_of_3_digits ''14'' [] = (1, [] @ [''014''])"
    by code_simp
  have v: "string_to_integer ''014'' = 14"
    by (simp add: string_to_integer_def char_value_def)
  then have e: "string_to_integer ''014'' \<noteq> 0" by simp
  have i: "integer_to_string 14 = ''14''" by code_simp
  have w: "spell_words ''014''
             \<lparr>m_number_in_digits = ''14'', m_number_in_words = '''',
              m_number_in_words_and_digits = ''14 ''\<rparr>
           = Some \<lparr>m_number_in_digits = ''14'', m_number_in_words = ''fourteen '',
                   m_number_in_words_and_digits = ''14 ''\<rparr>"
    by code_simp
  show ?thesis
    using a b d e w C2_units_group [OF a b c d e]
    by (auto simp: v i)
qed

end
